theory Spec2Isabelle
  imports Main "HOL-Library.Word"
begin

unbundle bit_operations_syntax

section \<open>Data model\<close>

text \<open>
  Go's \<open>[]byte\<close> is a list of 8-bit words, Go's \<open>string\<close> is an Isabelle string (a list
  of 8-bit characters). A nil slice and an empty slice are both the empty list. The aliases
  \<open>da.Blob\<close>, \<open>da.ID\<close>, \<open>da.Namespace\<close>, \<open>da.Proof\<close> and \<open>da.Commitment\<close> of the
  capability interface are all \<open>[]byte\<close>.
\<close>

type_synonym byte = "8 word"
type_synonym Blob = "byte list"
type_synonym ID = "byte list"
type_synonym Namespace = "byte list"
type_synonym Proof = "byte list"
type_synonym Commitment = "byte list"

text \<open>
  A Go \<open>error\<close> value that is not nil. \<open>CorruptInputError\<close> is the error of the base64
  decoder (the byte offset it carries in Go is left out); every other error comes from the
  JSON codec or the HTTP transport and is kept as an opaque message. A result of Go type
  \<open>(T, error)\<close> is a pair whose second component is \<open>None\<close> for a nil error.
\<close>

datatype error = Error string | CorruptInputError

text \<open>
  The structs of the source. Where two structs have a field of the same name, the fields of
  \<open>GetBlobResponse\<close> and \<open>Config\<close> carry a prefix.
\<close>

record PublishRequest =
  Blob :: string
  DataShardCount :: int
  ParityShardCount :: int
  Protocol :: string

record PublishResponse =
  TxHash :: string
  MetadataUri :: string

record GetBlobResponse =
  resp_Blob :: string

record Config =
  ServerURL :: string
  cfg_DataShardCount :: "32 word"
  cfg_ParityShardCount :: "32 word"
  GRPCServerAddress :: string

text \<open>\<open>float64\<close> is kept as its IEEE-754 bit pattern; no function inspects it.\<close>

type_synonym float64 = "64 word"

text \<open>A \<open>context.Context\<close>, reduced to its cancellation state (\<open>ctx.Err()\<close>).\<close>

record Context =
  ctx_Err :: "error option"

record SunriseDA =
  ctx :: Context
  config :: Config

definition NewSunriseDA :: "Context \<Rightarrow> Config \<Rightarrow> SunriseDA" where
  "NewSunriseDA c cfg = \<lparr>ctx = c, config = cfg\<rparr>"

section \<open>Conversions between strings and byte slices\<close>

text \<open>Go's \<open>[]byte(s)\<close> and \<open>string(b)\<close>: the same bytes, under the other type.\<close>

definition bytes_of_string :: "string \<Rightarrow> byte list" where
  "bytes_of_string s = map of_char s"

definition string_of_bytes :: "byte list \<Rightarrow> string" where
  "string_of_bytes b = map (\<lambda>w. char_of (unat w)) b"

section \<open>Base64 (\<open>base64.StdEncoding\<close>)\<close>

text \<open>
  The standard encoding of RFC 4648 with padding, as \<open>encoding/base64\<close> implements it.
  \<open>EncodeToString\<close> turns each group of three bytes into four characters of the alphabet
  and pads a last group of one or two bytes with \<open>=\<close>.
\<close>

definition encodeStd :: string where
  "encodeStd = ''ABCDEFGHIJKLMNOPQRSTUVWXYZabcdefghijklmnopqrstuvwxyz0123456789+/''"

definition padChar :: char where
  "padChar = CHR ''=''"

definition encode :: "32 word \<Rightarrow> char" where
  "encode v = encodeStd ! unat (v AND 0x3F)"

fun EncodeToString :: "byte list \<Rightarrow> string" where
  "EncodeToString (s0 # s1 # s2 # src) =
     (let val = push_bit 16 (ucast s0) OR push_bit 8 (ucast s1) OR ucast s2
      in encode (drop_bit 18 val) # encode (drop_bit 12 val) # encode (drop_bit 6 val)
           # encode val # EncodeToString src)"
| "EncodeToString [s0, s1] =
     (let val = push_bit 16 (ucast s0) OR push_bit 8 (ucast s1)
      in [encode (drop_bit 18 val), encode (drop_bit 12 val), encode (drop_bit 6 val), padChar])"
| "EncodeToString [s0] =
     (let val = push_bit 16 (ucast s0)
      in [encode (drop_bit 18 val), encode (drop_bit 12 val), padChar, padChar])"
| "EncodeToString [] = []"

text \<open>
  The decoder's table maps each character of the alphabet to its index and every other
  character to nothing (\<open>0xff\<close> in Go).
\<close>

definition decodeMap :: "char \<Rightarrow> 32 word option" where
  "decodeMap c = map_option of_nat (map_of (zip encodeStd [0 ..< 64]) c)"

text \<open>
  \<open>DecodeString\<close> skips carriage returns and line feeds, reads the rest in groups of four
  characters, accepts padding only in the last group (\<open>xx==\<close> for one byte, \<open>xxx=\<close> for
  two) and rejects everything else with \<open>CorruptInputError\<close>: a character outside the
  alphabet, a group that is cut short, padding in the wrong place, input after the padding.
  The encoding is not strict: the unused low bits of a padded group are ignored.
\<close>

fun decodeQuanta :: "string \<Rightarrow> error + byte list" where
  "decodeQuanta [] = Inr []"
| "decodeQuanta (c0 # c1 # c2 # c3 # src) =
     (case decodeMap c0 of
        None \<Rightarrow> Inl CorruptInputError
      | Some d0 \<Rightarrow>
         (case decodeMap c1 of
            None \<Rightarrow> Inl CorruptInputError
          | Some d1 \<Rightarrow>
             (case decodeMap c2 of
                None \<Rightarrow>
                  if c2 = padChar \<and> c3 = padChar \<and> src = []
                  then (let val = push_bit 18 d0 OR push_bit 12 d1
                        in Inr [ucast (drop_bit 16 val)])
                  else Inl CorruptInputError
              | Some d2 \<Rightarrow>
                 (case decodeMap c3 of
                    None \<Rightarrow>
                      if c3 = padChar \<and> src = []
                      then (let val = push_bit 18 d0 OR push_bit 12 d1 OR push_bit 6 d2
                            in Inr [ucast (drop_bit 16 val), ucast (drop_bit 8 val)])
                      else Inl CorruptInputError
                  | Some d3 \<Rightarrow>
                     (let val = push_bit 18 d0 OR push_bit 12 d1 OR push_bit 6 d2 OR d3
                      in case decodeQuanta src of
                           Inl err \<Rightarrow> Inl err
                         | Inr dst \<Rightarrow>
                             Inr (ucast (drop_bit 16 val) # ucast (drop_bit 8 val)
                                    # ucast val # dst))))))"
| "decodeQuanta src = Inl CorruptInputError"

definition DecodeString :: "string \<Rightarrow> error + byte list" where
  "DecodeString s = decodeQuanta (filter (\<lambda>c. c \<noteq> CHR 0x0A \<and> c \<noteq> CHR 0x0D) s)"

section \<open>MaxBlobSize\<close>

definition MaxBlobSize :: "SunriseDA \<Rightarrow> Context \<Rightarrow> 64 word \<times> error option" where
  "MaxBlobSize sunrise c = (let maxBlobSize = 64 * 64 * 500 in (maxBlobSize, None))"

section \<open>GetIDs\<close>

text \<open>
  \<open>binary.BigEndian.PutUint32(b, v)\<close> writes the four bytes of \<open>v\<close>, most significant
  first, at indices 0 to 3 of \<open>b\<close>. Go panics when \<open>b\<close> has fewer than four bytes; the only
  call passes a buffer of eight. \<open>Uint32\<close> is the library's reader of the same layout; it
  is applied to slices of four bytes only.
\<close>

definition PutUint32 :: "byte list \<Rightarrow> 32 word \<Rightarrow> byte list" where
  "PutUint32 b v =
     b[0 := ucast (drop_bit 24 v), 1 := ucast (drop_bit 16 v),
       2 := ucast (drop_bit 8 v), 3 := ucast v]"

definition Uint32 :: "byte list \<Rightarrow> 32 word" where
  "Uint32 b =
     ucast (b ! 3) OR push_bit 8 (ucast (b ! 2)) OR push_bit 16 (ucast (b ! 1))
       OR push_bit 24 (ucast (b ! 0))"

definition GetIDs :: "SunriseDA \<Rightarrow> Context \<Rightarrow> 64 word \<Rightarrow> Namespace \<Rightarrow> ID list \<times> error option" where
  "GetIDs c cx height namespace =
     (let heightAsUint32 = (ucast height :: 32 word);
          ids = PutUint32 (replicate 8 0) heightAsUint32
      in ([ids], None))"

section \<open>GetProofs, Commit, Validate\<close>

definition GetProofs :: "SunriseDA \<Rightarrow> Context \<Rightarrow> ID list \<Rightarrow> Namespace \<Rightarrow> Proof list \<times> error option" where
  "GetProofs sunrise c ids namespace = (let proofs = [] in (proofs, None))"

definition Commit :: "SunriseDA \<Rightarrow> Context \<Rightarrow> Blob list \<Rightarrow> Namespace \<Rightarrow> Commitment list \<times> error option" where
  "Commit sunrise c daBlobs namespace = (let commitments = [] in (commitments, None))"

definition Validate :: "SunriseDA \<Rightarrow> Context \<Rightarrow> ID list \<Rightarrow> Proof list \<Rightarrow> Namespace \<Rightarrow> bool list \<times> error option" where
  "Validate sunrise c ids daProofs namespace = (let valid = [] in (valid, None))"

section \<open>The remote service and the standard library\<close>

text \<open>
  The adapter talks to the blob service over HTTP and to the JSON codec of the standard
  library. Both are parameters of the model. Every outbound HTTP call is recorded, in the
  order it is made; the service answers a call from the calls made before it, so its
  answers may depend on what was stored earlier. \<open>'r\<close> is the type of \<open>*http.Response\<close>.
  Closing a response body only writes to the log when it fails, and the log is not
  modelled.
\<close>

record Request =
  req_method :: string
  req_url :: string

datatype call =
  Post string string string
| Do Request

record 'r env =
  json_Marshal :: "PublishRequest \<Rightarrow> error + string"
  http_Post :: "call list \<Rightarrow> string \<Rightarrow> string \<Rightarrow> string \<Rightarrow> error + 'r"
  http_NewRequest :: "string \<Rightarrow> string \<Rightarrow> error + Request"
  client_Do :: "call list \<Rightarrow> Request \<Rightarrow> error + 'r"
  io_ReadAll :: "'r \<Rightarrow> error + string"
  json_Unmarshal_PublishResponse :: "string \<Rightarrow> error + PublishResponse"
  json_Unmarshal_GetBlobResponse :: "string \<Rightarrow> error + GetBlobResponse"

section \<open>Submit\<close>

text \<open>
  The request one goroutine builds for its blob, and the goroutine's work up to the send on
  a channel: marshal the request, post it, read and parse the answer. The result is the
  value the goroutine is about to send, an error for \<open>errorChan\<close> or a response for
  \<open>resultChan\<close>, together with the calls made so far. Go's \<open>int\<close> is taken to be 64 bits
  wide, so the conversion of the shard counts from \<open>uint32\<close> keeps their value.
\<close>

definition publishRequest :: "SunriseDA \<Rightarrow> Blob \<Rightarrow> PublishRequest" where
  "publishRequest sunrise blob =
     (let encodedBlob = EncodeToString blob
      in \<lparr>Blob = encodedBlob,
          DataShardCount = uint (cfg_DataShardCount (config sunrise)),
          ParityShardCount = uint (cfg_ParityShardCount (config sunrise)),
          Protocol = ''ipfs''\<rparr>)"

definition publish :: "'r env \<Rightarrow> SunriseDA \<Rightarrow> Blob \<Rightarrow> call list \<Rightarrow> (error + PublishResponse) \<times> call list" where
  "publish env sunrise blob calls =
     (let requestData = publishRequest sunrise blob
      in case json_Marshal env requestData of
           Inl err \<Rightarrow> (Inl err, calls)
         | Inr requestBody \<Rightarrow>
            (let url = ServerURL (config sunrise) @ ''/api/publish'';
                 calls' = calls @ [Post url ''application/json'' requestBody]
             in case http_Post env calls url ''application/json'' requestBody of
                  Inl err \<Rightarrow> (Inl err, calls')
                | Inr response \<Rightarrow>
                   (case io_ReadAll env response of
                      Inl err \<Rightarrow> (Inl err, calls')
                    | Inr responseData \<Rightarrow>
                       (case json_Unmarshal_PublishResponse env responseData of
                          Inl err \<Rightarrow> (Inl err, calls')
                        | Inr publishResponse \<Rightarrow>
                            (Inr \<lparr>TxHash = TxHash publishResponse,
                                  MetadataUri = MetadataUri publishResponse\<rparr>, calls')))))"

text \<open>
  Submit starts one goroutine per blob. A goroutine is \<open>Started\<close> until it has made its
  HTTP call, then \<open>Sending\<close> the value it has for a channel, then \<open>Finished\<close>. The two
  channels are buffered with room for one value per blob, so a send never blocks and a
  channel is the list of the values sent, oldest first. The mutex around the send on
  \<open>resultChan\<close> changes no outcome.
\<close>

datatype goroutine =
  Started Blob
| Sending "error + PublishResponse"
| Finished

record submit_state =
  goroutines :: "goroutine list"
  resultChan :: "PublishResponse list"
  errorChan :: "error list"
  calls_made :: "call list"

text \<open>One step of goroutine \<open>i\<close>; a step of a goroutine that is finished or does not exist changes nothing.\<close>

definition step :: "'r env \<Rightarrow> SunriseDA \<Rightarrow> nat \<Rightarrow> submit_state \<Rightarrow> submit_state" where
  "step env sunrise i st =
     (if i < length (goroutines st) then
        (case goroutines st ! i of
           Started blob \<Rightarrow>
             (let (r, calls') = publish env sunrise blob (calls_made st)
              in st\<lparr>goroutines := (goroutines st)[i := Sending r], calls_made := calls'\<rparr>)
         | Sending (Inl err) \<Rightarrow>
             st\<lparr>goroutines := (goroutines st)[i := Finished], errorChan := errorChan st @ [err]\<rparr>
         | Sending (Inr response) \<Rightarrow>
             st\<lparr>goroutines := (goroutines st)[i := Finished],
                resultChan := resultChan st @ [response]\<rparr>
         | Finished \<Rightarrow> st)
      else st)"

text \<open>
  The scheduler is a list of goroutine indices: each entry lets that goroutine take its
  next step. \<open>wg.Wait()\<close> returns only when every goroutine is done, so after the schedule
  every goroutine that is not yet finished is run to its end.
\<close>

definition run :: "'r env \<Rightarrow> SunriseDA \<Rightarrow> nat list \<Rightarrow> submit_state \<Rightarrow> submit_state" where
  "run env sunrise sched st =
     (let n = length (goroutines st)
      in fold (step env sunrise) (sched @ [0 ..< n] @ [0 ..< n]) st)"

text \<open>
  What a call of Submit ends with. Once all goroutines are done and both channels are
  closed, Submit has drained \<open>resultChan\<close> into its local \<open>ids\<close> and receives once from
  \<open>errorChan\<close>: the oldest error, or nil when the channel is empty. The body has two ways
  out: the \<open>return nil, err\<close> of the error check, and the closing brace after it, which no
  return statement precedes. \<open>MissingReturn\<close> is the second, with the value the local
  \<open>ids\<close> holds there.
\<close>

datatype submit_result =
  Return "ID list" "error option"
| MissingReturn "ID list"

definition Submit ::
  "'r env \<Rightarrow> SunriseDA \<Rightarrow> Context \<Rightarrow> Blob list \<Rightarrow> float64 \<Rightarrow> Namespace \<Rightarrow> nat list \<Rightarrow> call list
     \<Rightarrow> submit_result \<times> call list" where
  "Submit env sunrise c daBlobs gasPrice namespace sched calls =
     (let st = run env sunrise sched
                 \<lparr>goroutines = map Started daBlobs, resultChan = [], errorChan = [],
                  calls_made = calls\<rparr>;
          ids = map (\<lambda>result. bytes_of_string (MetadataUri result)) (resultChan st)
      in case errorChan st of
           err # _ \<Rightarrow> (Return [] (Some err), calls_made st)
         | [] \<Rightarrow> (MissingReturn ids, calls_made st))"

section \<open>Get\<close>

text \<open>
  The body of the loop of Get up to the parsed JSON answer, then the whole body: \<open>Inl\<close> is
  one of its \<open>return nil, err\<close>, \<open>Inr\<close> the blob it appends. A request that cannot be built
  makes no call.
\<close>

definition fetchResponse :: "'r env \<Rightarrow> SunriseDA \<Rightarrow> ID \<Rightarrow> call list \<Rightarrow> (error + GetBlobResponse) \<times> call list" where
  "fetchResponse env sunrise id' calls =
     (let metadataUri = string_of_bytes id'
      in case http_NewRequest env ''GET''
                (ServerURL (config sunrise) @ ''/api/get-blob?metadata_uri='' @ metadataUri) of
           Inl err \<Rightarrow> (Inl err, calls)
         | Inr req \<Rightarrow>
            (let calls' = calls @ [Do req]
             in case client_Do env calls req of
                  Inl err \<Rightarrow> (Inl err, calls')
                | Inr response \<Rightarrow>
                   (case io_ReadAll env response of
                      Inl err \<Rightarrow> (Inl err, calls')
                    | Inr responseData \<Rightarrow>
                       (case json_Unmarshal_GetBlobResponse env responseData of
                          Inl err \<Rightarrow> (Inl err, calls')
                        | Inr blobResponse \<Rightarrow> (Inr blobResponse, calls')))))"

definition fetchBlob :: "'r env \<Rightarrow> SunriseDA \<Rightarrow> ID \<Rightarrow> call list \<Rightarrow> (error + Blob) \<times> call list" where
  "fetchBlob env sunrise id' calls =
     (case fetchResponse env sunrise id' calls of
        (Inl err, calls') \<Rightarrow> (Inl err, calls')
      | (Inr blobResponse, calls') \<Rightarrow>
          (let blob = resp_Blob blobResponse
           in case DecodeString blob of
                Inl err \<Rightarrow> (Inl err, calls')
              | Inr decodedBlob \<Rightarrow> (Inr decodedBlob, calls')))"

fun Get_loop :: "'r env \<Rightarrow> SunriseDA \<Rightarrow> ID list \<Rightarrow> Blob list \<Rightarrow> call list \<Rightarrow> (Blob list \<times> error option) \<times> call list" where
  "Get_loop env sunrise [] blobs calls = ((blobs, None), calls)"
| "Get_loop env sunrise (id' # ids) blobs calls =
     (case fetchBlob env sunrise id' calls of
        (Inl err, calls') \<Rightarrow> (([], Some err), calls')
      | (Inr decodedBlob, calls') \<Rightarrow> Get_loop env sunrise ids (blobs @ [decodedBlob]) calls')"

definition Get ::
  "'r env \<Rightarrow> SunriseDA \<Rightarrow> Context \<Rightarrow> ID list \<Rightarrow> Namespace \<Rightarrow> call list
     \<Rightarrow> (Blob list \<times> error option) \<times> call list" where
  "Get env sunrise c ids namespace calls = Get_loop env sunrise ids [] calls"

text \<open>
  The answers of the service when the identifiers are fetched one after the other, none
  left out: what Get reads as long as no identifier fails.
\<close>

fun fetchAll :: "'r env \<Rightarrow> SunriseDA \<Rightarrow> ID list \<Rightarrow> call list \<Rightarrow> (error + GetBlobResponse) list" where
  "fetchAll env sunrise [] calls = []"
| "fetchAll env sunrise (id' # ids) calls =
     (case fetchResponse env sunrise id' calls of
        (r, calls') \<Rightarrow> r # fetchAll env sunrise ids calls')"

section \<open>A test service\<close>

text \<open>
  The mock endpoints of the concrete scenario: the publish endpoint knows the payloads of
  the blobs \<open>A\<close> and \<open>BB\<close> and answers with the locators \<open>loc1\<close> and \<open>loc2\<close>; the fetch
  endpoint gives the payload back for each locator; any other request fails. Bodies on the
  wire are the bare field values.
\<close>

definition mock_store :: "(string \<times> string) list" where
  "mock_store = [(''QQ=='', ''loc1''), (''QkI='', ''loc2'')]"

definition mock_env :: "string env" where
  "mock_env =
     \<lparr>json_Marshal = (\<lambda>req. Inr (Blob req)),
      http_Post = (\<lambda>calls url contentType body.
         case map_of mock_store body of
           Some locator \<Rightarrow> Inr locator
         | None \<Rightarrow> Inl (Error ''publish failed'')),
      http_NewRequest = (\<lambda>m u. Inr \<lparr>req_method = m, req_url = u\<rparr>),
      client_Do = (\<lambda>calls req.
         case map_of (map (\<lambda>(payload, locator).
                 (''http://da/api/get-blob?metadata_uri='' @ locator, payload)) mock_store)
                (req_url req) of
           Some payload \<Rightarrow> Inr payload
         | None \<Rightarrow> Inl (Error ''not found'')),
      io_ReadAll = (\<lambda>r. Inr r),
      json_Unmarshal_PublishResponse = (\<lambda>s. Inr \<lparr>TxHash = [], MetadataUri = s\<rparr>),
      json_Unmarshal_GetBlobResponse = (\<lambda>s. Inr \<lparr>resp_Blob = s\<rparr>)\<rparr>"

definition mock_da :: SunriseDA where
  "mock_da =
     NewSunriseDA \<lparr>ctx_Err = None\<rparr>
       \<lparr>ServerURL = ''http://da'', cfg_DataShardCount = 10, cfg_ParityShardCount = 10,
        GRPCServerAddress = ''localhost:3000''\<rparr>"

section \<open>Invariants of the goroutines\<close>

text \<open>How far a goroutine has come.\<close>

fun stage :: "goroutine \<Rightarrow> nat" where
  "stage (Started blob) = 0"
| "stage (Sending r) = 1"
| "stage Finished = 2"

text \<open>Goroutine \<open>i\<close> holds an error for \<open>errorChan\<close>, or has sent one.\<close>

definition error_held :: "nat \<Rightarrow> submit_state \<Rightarrow> bool" where
  "error_held i st =
     (i < length (goroutines st) \<and>
      (case goroutines st ! i of
         Started b \<Rightarrow> False
       | Sending r \<Rightarrow> isl r
       | Finished \<Rightarrow> errorChan st \<noteq> []))"

text \<open>
  Goroutine \<open>i\<close> works on a blob whose publish fails: it has not started yet, or it holds
  an error, or it has sent one.
\<close>

definition doomed :: "nat \<Rightarrow> Blob \<Rightarrow> submit_state \<Rightarrow> bool" where
  "doomed i blob st =
     (i < length (goroutines st) \<and>
      (case goroutines st ! i of
         Started b \<Rightarrow> b = blob
       | Sending r \<Rightarrow> isl r
       | Finished \<Rightarrow> errorChan st \<noteq> []))"

text \<open>
  No publish has failed so far: every goroutine still has its own blob, or holds a
  response with property \<open>P\<close>, or is finished; \<open>errorChan\<close> is empty and \<open>resultChan\<close>
  holds one response with property \<open>P\<close> for each finished goroutine.
\<close>

definition on_track :: "(PublishResponse \<Rightarrow> bool) \<Rightarrow> Blob list \<Rightarrow> submit_state \<Rightarrow> bool" where
  "on_track P daBlobs st =
     (list_all2 (\<lambda>blob g. case g of
                    Started b \<Rightarrow> b = blob
                  | Sending r \<Rightarrow> (case r of Inl err \<Rightarrow> False | Inr response \<Rightarrow> P response)
                  | Finished \<Rightarrow> True) daBlobs (goroutines st) \<and>
      errorChan st = [] \<and>
      length (resultChan st) = length (filter (\<lambda>g. g = Finished) (goroutines st)) \<and>
      list_all P (resultChan st))"

section \<open>Strings and byte slices\<close>

lemma unat_of_char: "unat (of_char c :: byte) = of_char c"
proof -
  have "(of_char c :: byte) = of_nat (of_char c)" by (simp add: of_nat_of_char)
  moreover have "(of_char c :: nat) < 256" by simp
  ultimately show ?thesis by (simp add: unat_of_nat)
qed

lemma of_char_char_of_unat: "of_char (char_of (unat w)) = (w :: byte)"
proof -
  have "(of_char (char_of (unat w)) :: byte) = of_nat (of_char (char_of (unat w)))"
    by (simp only: of_nat_of_char)
  also have "\<dots> = of_nat (unat w mod 256)" by simp
  also have "\<dots> = w" using unsigned_less [of w, where 'a = nat] by simp
  finally show ?thesis .
qed

lemma string_of_bytes_of_string: "string_of_bytes (bytes_of_string s) = s"
  by (simp add: string_of_bytes_def bytes_of_string_def unat_of_char comp_def)

lemma bytes_of_string_of_bytes: "bytes_of_string (string_of_bytes b) = b"
  by (simp add: string_of_bytes_def bytes_of_string_def comp_def of_char_char_of_unat)

section \<open>The height identifier\<close>

lemma PutUint32_8:
  "PutUint32 [a, b, c, d, e, f, g, h] v =
     [ucast (drop_bit 24 v), ucast (drop_bit 16 v), ucast (drop_bit 8 v), ucast v, e, f, g, h]"
  unfolding PutUint32_def by (simp add: list_update_code)

lemma replicate_8: "replicate 8 (0 :: byte) = [0, 0, 0, 0, 0, 0, 0, 0]"
  by (simp add: numeral_eq_Suc)

lemma Uint32_4:
  "Uint32 (a # b # c # d # r) =
     ucast d OR push_bit 8 (ucast c) OR push_bit 16 (ucast b) OR push_bit 24 (ucast a)"
  unfolding Uint32_def by simp

lemma Uint32_PutUint32:
  "Uint32 [ucast (drop_bit 24 v), ucast (drop_bit 16 v), ucast (drop_bit 8 v), ucast (v :: 32 word)] = v"
  unfolding Uint32_4
proof (rule bit_word_eqI)
  fix n assume n: "n < LENGTH(32)"
  consider "n < 8" | "8 \<le> n" "n < 16" | "16 \<le> n" "n < 24" | "24 \<le> n" by linarith
  then show "bit (ucast (ucast v :: byte) OR push_bit 8 (ucast (ucast (drop_bit 8 v) :: byte)) OR
          push_bit 16 (ucast (ucast (drop_bit 16 v) :: byte)) OR
          push_bit 24 (ucast (ucast (drop_bit 24 v) :: byte)) :: 32 word) n = bit v n"
    using n by cases (auto simp add: bit_simps)
qed

lemma unat_truncate: "unat (ucast (h :: 64 word) :: 32 word) = unat h mod 2 ^ 32"
  by (simp add: unsigned_ucast_eq take_bit_eq_mod)

section \<open>Base64 decoding inverts encoding\<close>

lemma length_encodeStd: "length encodeStd = 64" by (simp add: encodeStd_def)
lemma distinct_encodeStd: "distinct encodeStd" unfolding encodeStd_def by simp

lemma and_3F: "(v :: 32 word) AND 0x3F = take_bit 6 v"
proof -
  have "(0x3F :: 32 word) = mask 6" by (simp add: mask_eq_exp_minus_1)
  then show ?thesis by (simp add: take_bit_eq_mask)
qed

lemma unat_sextet: "unat (take_bit 6 (v :: 32 word)) < 64"
proof -
  have "take_bit 6 (unat v) < 2 ^ 6" by (rule take_bit_nat_less_exp)
  then show ?thesis by (simp add: unsigned_take_bit_eq)
qed

lemma decodeMap_nth: "i < 64 \<Longrightarrow> decodeMap (encodeStd ! i) = Some (of_nat i)"
proof -
  assume i: "i < 64"
  have "map_of (zip encodeStd [0 ..< 64]) (encodeStd ! i) = Some ([0 ..< 64] ! i)"
    using i by (intro map_of_zip_nth) (simp_all add: length_encodeStd distinct_encodeStd)
  then show ?thesis using i by (simp add: decodeMap_def)
qed

lemma decodeMap_encode: "decodeMap (encode v) = Some (take_bit 6 v)"
  using decodeMap_nth [OF unat_sextet [of v]] by (simp add: encode_def and_3F)

lemma encode_in_alphabet: "encode v \<in> set encodeStd"
  unfolding encode_def and_3F using unat_sextet [of v] by (simp add: length_encodeStd)

lemma decodeMap_padChar: "decodeMap padChar = None"
  by (simp add: decodeMap_def padChar_def encodeStd_def map_of_zip_is_None)

lemma encode_not_newline: "encode v \<noteq> CHR 0x0A \<and> encode v \<noteq> CHR 0x0D"
proof -
  have "CHR 0x0A \<notin> set encodeStd" "CHR 0x0D \<notin> set encodeStd" by (simp_all add: encodeStd_def)
  then show ?thesis using encode_in_alphabet [of v] by metis
qed

lemma padChar_not_newline: "padChar \<noteq> CHR 0x0A \<and> padChar \<noteq> CHR 0x0D"
  by (simp add: padChar_def)

lemma filter_EncodeToString:
  "filter (\<lambda>c. c \<noteq> CHR 0x0A \<and> c \<noteq> CHR 0x0D) (EncodeToString src) = EncodeToString src"
  by (induction src rule: EncodeToString.induct)
     (simp_all add: Let_def encode_not_newline padChar_not_newline)

lemma regroup24:
  "push_bit 18 (take_bit 6 (drop_bit 18 v)) OR push_bit 12 (take_bit 6 (drop_bit 12 v))
     OR push_bit 6 (take_bit 6 (drop_bit 6 v)) OR take_bit 6 v = take_bit 24 (v :: 32 word)"
proof (rule bit_word_eqI)
  fix n assume n: "n < LENGTH(32)"
  consider "n < 6" | "6 \<le> n" "n < 12" | "12 \<le> n" "n < 18" | "18 \<le> n" "n < 24" | "24 \<le> n" by linarith
  then show "bit (push_bit 18 (take_bit 6 (drop_bit 18 v)) OR push_bit 12 (take_bit 6 (drop_bit 12 v))
     OR push_bit 6 (take_bit 6 (drop_bit 6 v)) OR take_bit 6 v) n = bit (take_bit 24 v) n"
    using n by cases (auto simp add: bit_simps)
qed

lemma regroup18:
  "push_bit 18 (take_bit 6 (drop_bit 18 v)) OR push_bit 12 (take_bit 6 (drop_bit 12 v))
     OR push_bit 6 (take_bit 6 (drop_bit 6 v)) = push_bit 6 (take_bit 18 (drop_bit 6 (v :: 32 word)))"
proof (rule bit_word_eqI)
  fix n assume n: "n < LENGTH(32)"
  consider "n < 6" | "6 \<le> n" "n < 12" | "12 \<le> n" "n < 18" | "18 \<le> n" "n < 24" | "24 \<le> n" by linarith
  then show "bit (push_bit 18 (take_bit 6 (drop_bit 18 v)) OR push_bit 12 (take_bit 6 (drop_bit 12 v))
     OR push_bit 6 (take_bit 6 (drop_bit 6 v))) n = bit (push_bit 6 (take_bit 18 (drop_bit 6 v))) n"
    using n by cases (auto simp add: bit_simps)
qed

lemma regroup12:
  "push_bit 18 (take_bit 6 (drop_bit 18 v)) OR push_bit 12 (take_bit 6 (drop_bit 12 v))
     = push_bit 12 (take_bit 12 (drop_bit 12 (v :: 32 word)))"
proof (rule bit_word_eqI)
  fix n assume n: "n < LENGTH(32)"
  consider "n < 12" | "12 \<le> n" "n < 18" | "18 \<le> n" "n < 24" | "24 \<le> n" by linarith
  then show "bit (push_bit 18 (take_bit 6 (drop_bit 18 v)) OR push_bit 12 (take_bit 6 (drop_bit 12 v))) n = bit (push_bit 12 (take_bit 12 (drop_bit 12 v))) n"
    using n by cases (auto simp add: bit_simps)
qed

lemma byte_high_bit: "\<not> bit (s :: byte) (8 + n)" "\<not> bit (s :: byte) (16 + n)"
  using bit_imp_le_length [of s "8 + n"] bit_imp_le_length [of s "16 + n"] by auto

lemma byte0_24: "ucast (drop_bit 16 (take_bit 24 (push_bit 16 (ucast (s0 :: byte)) OR push_bit 8 (ucast (s1 :: byte)) OR ucast (s2 :: byte) :: 32 word))) = s0"
  by (rule bit_word_eqI) (auto simp add: bit_simps byte_high_bit)
lemma byte1_24: "ucast (drop_bit 8 (take_bit 24 (push_bit 16 (ucast (s0 :: byte)) OR push_bit 8 (ucast (s1 :: byte)) OR ucast (s2 :: byte) :: 32 word))) = s1"
  by (rule bit_word_eqI) (auto simp add: bit_simps byte_high_bit)
lemma byte2_24: "ucast (take_bit 24 (push_bit 16 (ucast (s0 :: byte)) OR push_bit 8 (ucast (s1 :: byte)) OR ucast (s2 :: byte) :: 32 word)) = s2"
  by (rule bit_word_eqI) (auto simp add: bit_simps byte_high_bit)
lemma byte0_18: "ucast (drop_bit 16 (push_bit 6 (take_bit 18 (drop_bit 6 (push_bit 16 (ucast (s0 :: byte)) OR push_bit 8 (ucast (s1 :: byte)) :: 32 word))))) = s0"
  by (rule bit_word_eqI) (auto simp add: bit_simps byte_high_bit)
lemma byte1_18: "ucast (drop_bit 8 (push_bit 6 (take_bit 18 (drop_bit 6 (push_bit 16 (ucast (s0 :: byte)) OR push_bit 8 (ucast (s1 :: byte)) :: 32 word))))) = s1"
  by (rule bit_word_eqI) (auto simp add: bit_simps byte_high_bit)
lemma byte0_12: "ucast (drop_bit 16 (push_bit 12 (take_bit 12 (drop_bit 12 (push_bit 16 (ucast (s0 :: byte)) :: 32 word))))) = s0"
  by (rule bit_word_eqI) (auto simp add: bit_simps byte_high_bit)

lemma decodeQuanta_full:
  "decodeQuanta (encode (drop_bit 18 val) # encode (drop_bit 12 val) # encode (drop_bit 6 val)
       # encode val # cs) =
     (case decodeQuanta cs of
        Inl err \<Rightarrow> Inl err
      | Inr dst \<Rightarrow> Inr (ucast (drop_bit 16 (take_bit 24 val)) # ucast (drop_bit 8 (take_bit 24 val))
                       # ucast (take_bit 24 val) # dst))"
  by (simp add: decodeMap_encode regroup24 Let_def)

lemma decodeQuanta_pad1:
  "decodeQuanta [encode (drop_bit 18 val), encode (drop_bit 12 val), encode (drop_bit 6 val), padChar] =
     Inr [ucast (drop_bit 16 (push_bit 6 (take_bit 18 (drop_bit 6 val)))),
          ucast (drop_bit 8 (push_bit 6 (take_bit 18 (drop_bit 6 val))))]"
  by (simp add: decodeMap_encode decodeMap_padChar regroup18 Let_def)

lemma decodeQuanta_pad2:
  "decodeQuanta [encode (drop_bit 18 val), encode (drop_bit 12 val), padChar, padChar] =
     Inr [ucast (drop_bit 16 (push_bit 12 (take_bit 12 (drop_bit 12 val))))]"
  by (simp add: decodeMap_encode decodeMap_padChar regroup12 Let_def)

lemma decodeQuanta_EncodeToString: "decodeQuanta (EncodeToString src) = Inr src"
proof (induction src rule: EncodeToString.induct)
  case (1 s0 s1 s2 src)
  show ?case
    by (simp only: EncodeToString.simps Let_def decodeQuanta_full "1.IH" sum.case
          byte0_24 byte1_24 byte2_24)
next
  case (2 s0 s1)
  show ?case
    by (simp only: EncodeToString.simps Let_def decodeQuanta_pad1 byte0_18 byte1_18)
next
  case (3 s0)
  show ?case
    by (simp only: EncodeToString.simps Let_def decodeQuanta_pad2 byte0_12)
next
  case 4
  show ?case by simp
qed

lemma DecodeString_EncodeToString: "DecodeString (EncodeToString src) = Inr src"
  by (simp add: DecodeString_def filter_EncodeToString decodeQuanta_EncodeToString)

section \<open>The loop of Get\<close>

lemma fetchBlob_Inr:
  "fetchBlob env sunrise id' calls = (Inr b, calls') \<longleftrightarrow>
     (\<exists>r. fetchResponse env sunrise id' calls = (Inr r, calls') \<and> DecodeString (resp_Blob r) = Inr b)"
  by (auto simp add: fetchBlob_def split: prod.splits sum.splits)

lemma Get_loop_success:
  "fetchAll env sunrise ids calls = map Inr rs \<Longrightarrow>
   map (\<lambda>r. DecodeString (resp_Blob r)) rs = map Inr bs \<Longrightarrow>
   fst (Get_loop env sunrise ids acc calls) = (acc @ bs, None)"
proof (induction ids arbitrary: rs bs acc calls)
  case Nil
  then show ?case by simp
next
  case (Cons i ids)
  obtain r0 calls' where f: "fetchResponse env sunrise i calls = (r0, calls')" by (cases "fetchResponse env sunrise i calls")
  with Cons.prems(1) obtain r rs' where rs: "rs = r # rs'" "r0 = Inr r" "fetchAll env sunrise ids calls' = map Inr rs'"
    by (cases rs) auto
  with Cons.prems(2) obtain b bs' where bs: "bs = b # bs'" "DecodeString (resp_Blob r) = Inr b"
     "map (\<lambda>r. DecodeString (resp_Blob r)) rs' = map Inr bs'"
    by (cases bs) auto
  have "fetchBlob env sunrise i calls = (Inr b, calls')"
    using f rs(2) bs(2) by (simp add: fetchBlob_Inr)
  then show ?case using Cons.IH [OF rs(3) bs(3), of "acc @ [b]"] bs(1) by simp
qed

lemma length_fetchAll: "length (fetchAll env sunrise ids calls) = length ids"
  by (induction ids arbitrary: calls) (auto split: prod.splits)

text \<open>
  Claim C5. When every identifier of the list is answered with a well-formed response
  (\<open>rs\<close>, one for each identifier) whose blob field is base64 (\<open>bs\<close> are the decoded
  fields), Get returns no error and exactly the decoded fields, one for each identifier,
  in the order of the identifiers.
\<close>

theorem Get_returns_blobs_in_order:
  assumes "fetchAll env sunrise ids calls = map Inr rs"
      and "map (\<lambda>r. DecodeString (resp_Blob r)) rs = map Inr bs"
  shows "fst (Get env sunrise c ids namespace calls) = (bs, None) \<and> length bs = length ids"
proof -
  have "length rs = length ids" using length_fetchAll [of env sunrise ids calls] assms(1) by simp
  moreover have "length bs = length rs" using assms(2) by (metis length_map)
  ultimately show ?thesis using Get_loop_success [OF assms, of "[]"] by (simp add: Get_def)
qed

theorem Get_returns_blobs_in_order_witness:
  "fst (Get mock_env mock_da \<lparr>ctx_Err = None\<rparr>
          [bytes_of_string ''loc2'', bytes_of_string ''loc1''] [] []) = ([[66, 66], [65]], None)
   \<and> length [[66, 66], [65 :: byte]] = length [bytes_of_string ''loc2'', bytes_of_string ''loc1'']"
proof -
  have responses:
    "fetchAll mock_env mock_da [bytes_of_string ''loc2'', bytes_of_string ''loc1''] [] =
       map Inr [\<lparr>resp_Blob = ''QkI=''\<rparr>, \<lparr>resp_Blob = ''QQ==''\<rparr>]"
    by code_simp
  have decoded:
    "map (\<lambda>r. DecodeString (resp_Blob r)) [\<lparr>resp_Blob = ''QkI=''\<rparr>, \<lparr>resp_Blob = ''QQ==''\<rparr>] =
       map Inr [[66, 66], [65]]"
    by code_simp
  show ?thesis by (rule Get_returns_blobs_in_order [OF responses decoded])
qed

lemma Get_loop_append:
  "Get_loop env sunrise pre acc calls = ((bs, None), calls1) \<Longrightarrow>
   Get_loop env sunrise (pre @ rest) acc calls = Get_loop env sunrise rest bs calls1"
proof (induction pre arbitrary: acc calls)
  case Nil
  then show ?case by simp
next
  case (Cons i pre)
  then show ?case by (auto split: prod.splits sum.splits)
qed

lemma length_fetchResponse: "fetchResponse env sunrise i calls = (r, calls') \<Longrightarrow> length calls' \<le> Suc (length calls)"
  by (auto simp add: fetchResponse_def Let_def split: sum.splits)

lemma length_fetchBlob: "fetchBlob env sunrise i calls = (r, calls') \<Longrightarrow> length calls' \<le> Suc (length calls)"
  by (auto simp add: fetchBlob_def split: prod.splits sum.splits dest: length_fetchResponse)

lemma length_Get_loop: "Get_loop env sunrise ids acc calls = (res, calls') \<Longrightarrow> length calls' \<le> length calls + length ids"
proof (induction ids arbitrary: acc calls)
  case Nil
  then show ?case by simp
next
  case (Cons i ids)
  then show ?case by (fastforce split: prod.splits sum.splits dest: length_fetchBlob)
qed

text \<open>
  The ways the fetch of one identifier fails: the request cannot be built, the call fails,
  the body cannot be read, the body is not the expected JSON, or the blob field is not
  base64. Only the first makes no call.
\<close>

lemma fetchBlob_fails_iff:
  "fetchBlob env sunrise id' calls = (Inl err, calls') \<longleftrightarrow>
     (http_NewRequest env ''GET''
         (ServerURL (config sunrise) @ ''/api/get-blob?metadata_uri='' @ string_of_bytes id') = Inl err
        \<and> calls' = calls)
     \<or> (\<exists>req. http_NewRequest env ''GET''
                 (ServerURL (config sunrise) @ ''/api/get-blob?metadata_uri='' @ string_of_bytes id') = Inr req
               \<and> calls' = calls @ [Do req]
               \<and> (client_Do env calls req = Inl err
                    \<or> (\<exists>response. client_Do env calls req = Inr response
                          \<and> (io_ReadAll env response = Inl err
                               \<or> (\<exists>responseData. io_ReadAll env response = Inr responseData
                                     \<and> (json_Unmarshal_GetBlobResponse env responseData = Inl err
                                          \<or> (\<exists>blobResponse.
                                                 json_Unmarshal_GetBlobResponse env responseData = Inr blobResponse
                                                 \<and> DecodeString (resp_Blob blobResponse) = Inl err)))))))"
  by (auto simp add: fetchBlob_def fetchResponse_def Let_def split: sum.splits prod.splits)

text \<open>
  Claim C6. When the identifiers \<open>pre\<close> are fetched without failure and the fetch of the
  next identifier \<open>x\<close> fails (the request cannot be built, the network fails, the response
  is malformed, or its blob field is not base64), Get returns that error and the nil blob
  list, whatever was fetched before. The identifiers after \<open>x\<close> are not fetched: the calls
  made are those up to the failed fetch, at most one for each identifier up to \<open>x\<close>, and
  the outcome is the same as without the identifiers after \<open>x\<close>.
\<close>

theorem Get_fails_at_first_failing_id:
  assumes "Get env sunrise c pre namespace calls = ((bs, None), calls1)"
      and "fetchBlob env sunrise x calls1 = (Inl err, calls2)"
  shows "Get env sunrise c (pre @ x # rest) namespace calls = (([], Some err), calls2)
         \<and> Get env sunrise c (pre @ x # rest) namespace calls = Get env sunrise c (pre @ [x]) namespace calls
         \<and> length calls2 \<le> length calls + length pre + 1"
proof -
  have loop: "Get_loop env sunrise (pre @ x # ids) [] calls = Get_loop env sunrise (x # ids) bs calls1" for ids
    using assms(1) by (simp add: Get_def Get_loop_append)
  have "length calls1 \<le> length calls + length pre"
    using assms(1) by (simp add: Get_def length_Get_loop)
  moreover have "length calls2 \<le> Suc (length calls1)" using assms(2) by (rule length_fetchBlob)
  ultimately show ?thesis using assms(2) loop [of rest] loop [of "[]"] by (simp add: Get_def)
qed

theorem Get_fails_at_first_failing_id_witness:
  "Get mock_env mock_da \<lparr>ctx_Err = None\<rparr>
     ([bytes_of_string ''loc2''] @ bytes_of_string ''loc3'' # [bytes_of_string ''loc1'']) [] [] =
     (([], Some (Error ''not found'')),
      [Do \<lparr>req_method = ''GET'', req_url = ''http://da/api/get-blob?metadata_uri=loc2''\<rparr>,
       Do \<lparr>req_method = ''GET'', req_url = ''http://da/api/get-blob?metadata_uri=loc3''\<rparr>])
   \<and> Get mock_env mock_da \<lparr>ctx_Err = None\<rparr>
     ([bytes_of_string ''loc2''] @ bytes_of_string ''loc3'' # [bytes_of_string ''loc1'']) [] [] =
     Get mock_env mock_da \<lparr>ctx_Err = None\<rparr>
     ([bytes_of_string ''loc2''] @ [bytes_of_string ''loc3'']) [] []
   \<and> length [Do \<lparr>req_method = ''GET'', req_url = ''http://da/api/get-blob?metadata_uri=loc2''\<rparr>,
       Do \<lparr>req_method = ''GET'', req_url = ''http://da/api/get-blob?metadata_uri=loc3''\<rparr>]
        \<le> length ([] :: call list) + length [bytes_of_string ''loc2''] + 1"
proof -
  have before:
    "Get mock_env mock_da \<lparr>ctx_Err = None\<rparr> [bytes_of_string ''loc2''] [] [] =
       (([[66, 66]], None),
        [Do \<lparr>req_method = ''GET'', req_url = ''http://da/api/get-blob?metadata_uri=loc2''\<rparr>])"
    by code_simp
  have failing:
    "fetchBlob mock_env mock_da (bytes_of_string ''loc3'')
       [Do \<lparr>req_method = ''GET'', req_url = ''http://da/api/get-blob?metadata_uri=loc2''\<rparr>] =
       (Inl (Error ''not found''),
        [Do \<lparr>req_method = ''GET'', req_url = ''http://da/api/get-blob?metadata_uri=loc2''\<rparr>,
         Do \<lparr>req_method = ''GET'', req_url = ''http://da/api/get-blob?metadata_uri=loc3''\<rparr>])"
    by code_simp
  show ?thesis by (rule Get_fails_at_first_failing_id [OF before failing])
qed

text \<open>
  Claim C10. For the empty list of identifiers Get returns the nil blob list and no error,
  and makes no call.
\<close>

theorem Get_empty: "Get env sunrise c [] namespace calls = (([], None), calls)"
  by (simp add: Get_def)

section \<open>Every goroutine finishes\<close>

lemma length_step [simp]: "length (goroutines (step env sunrise i st)) = length (goroutines st)"
  by (simp add: step_def split: goroutine.splits sum.splits prod.splits)

lemma length_fold_step [simp]:
  "length (goroutines (fold (step env sunrise) sched st)) = length (goroutines st)"
  by (induction sched arbitrary: st) simp_all

lemma stage_le_2: "stage g \<le> 2" by (cases g) simp_all

lemma stage_step_mono:
  "stage (goroutines st ! j) \<le> stage (goroutines (step env sunrise i st) ! j)"
proof (cases "i < length (goroutines st)")
  case True
  then show ?thesis
    by (cases "j = i") (auto simp add: step_def split: goroutine.splits sum.splits prod.splits)
next
  case False
  then show ?thesis by (simp add: step_def)
qed

lemma stage_step_progress:
  "i < length (goroutines st) \<Longrightarrow>
   min 2 (Suc (stage (goroutines st ! i))) \<le> stage (goroutines (step env sunrise i st) ! i)"
  by (auto simp add: step_def split: goroutine.splits sum.splits prod.splits)

lemma stage_fold_mono:
  "stage (goroutines st ! j) \<le> stage (goroutines (fold (step env sunrise) sched st) ! j)"
proof (induction sched arbitrary: st)
  case Nil
  then show ?case by simp
next
  case (Cons i sched)
  have "stage (goroutines st ! j) \<le> stage (goroutines (step env sunrise i st) ! j)"
    by (rule stage_step_mono)
  also have "\<dots> \<le> stage (goroutines (fold (step env sunrise) sched (step env sunrise i st)) ! j)"
    by (rule Cons.IH)
  finally show ?case by simp
qed

lemma stage_fold_progress:
  "i \<in> set sched \<Longrightarrow> i < length (goroutines st) \<Longrightarrow>
   min 2 (Suc (stage (goroutines st ! i))) \<le> stage (goroutines (fold (step env sunrise) sched st) ! i)"
proof (induction sched arbitrary: st)
  case Nil
  then show ?case by simp
next
  case (Cons k sched)
  show ?case
  proof (cases "k = i")
    case True
    have "min 2 (Suc (stage (goroutines st ! i))) \<le> stage (goroutines (step env sunrise i st) ! i)"
      using Cons.prems(2) by (rule stage_step_progress)
    also have "\<dots> \<le> stage (goroutines (fold (step env sunrise) sched (step env sunrise i st)) ! i)"
      by (rule stage_fold_mono)
    finally show ?thesis using True by simp
  next
    case False
    then have "i \<in> set sched" using Cons.prems(1) by simp
    then have "min 2 (Suc (stage (goroutines (step env sunrise k st) ! i)))
                 \<le> stage (goroutines (fold (step env sunrise) sched (step env sunrise k st)) ! i)"
      using Cons.prems(2) by (intro Cons.IH) simp_all
    moreover have "stage (goroutines st ! i) \<le> stage (goroutines (step env sunrise k st) ! i)"
      by (rule stage_step_mono)
    ultimately show ?thesis by simp
  qed
qed

lemma length_run [simp]: "length (goroutines (run env sunrise sched st)) = length (goroutines st)"
  by (simp add: run_def Let_def)

lemma run_finishes:
  assumes "i < length (goroutines st)"
  shows "goroutines (run env sunrise sched st) ! i = Finished"
proof -
  let ?n = "length (goroutines st)"
  let ?a = "fold (step env sunrise) sched st"
  let ?b = "fold (step env sunrise) [0 ..< ?n] ?a"
  let ?d = "fold (step env sunrise) [0 ..< ?n] ?b"
  have i: "i \<in> set [0 ..< ?n]" using assms by simp
  have "1 \<le> stage (goroutines ?b ! i)"
    using stage_fold_progress [OF i, of ?a env sunrise] assms by simp
  moreover have "min 2 (Suc (stage (goroutines ?b ! i))) \<le> stage (goroutines ?d ! i)"
    using stage_fold_progress [OF i, of ?b env sunrise] assms by simp
  ultimately have "2 \<le> stage (goroutines ?d ! i)" by simp
  then have "goroutines ?d ! i = Finished" by (cases "goroutines ?d ! i") simp_all
  then show ?thesis by (simp add: run_def Let_def)
qed

section \<open>A failing publish fails the batch\<close>

text \<open>
  The ways the publish of one blob fails: the request cannot be marshalled, the call
  fails, the body cannot be read, or the body is not the expected JSON.
\<close>

lemma publish_fails_iff:
  "publish env sunrise blob calls = (Inl err, calls') \<longleftrightarrow>
     (json_Marshal env (publishRequest sunrise blob) = Inl err \<and> calls' = calls)
     \<or> (\<exists>requestBody. json_Marshal env (publishRequest sunrise blob) = Inr requestBody
           \<and> calls' = calls @ [Post (ServerURL (config sunrise) @ ''/api/publish'') ''application/json'' requestBody]
           \<and> (http_Post env calls (ServerURL (config sunrise) @ ''/api/publish'') ''application/json'' requestBody = Inl err
                \<or> (\<exists>response. http_Post env calls (ServerURL (config sunrise) @ ''/api/publish'') ''application/json'' requestBody = Inr response
                      \<and> (io_ReadAll env response = Inl err
                           \<or> (\<exists>responseData. io_ReadAll env response = Inr responseData
                                 \<and> json_Unmarshal_PublishResponse env responseData = Inl err)))))"
  by (auto simp add: publish_def Let_def split: sum.splits prod.splits)

lemma doomed_step:
  assumes fails: "\<And>calls. isl (fst (publish env sunrise blob calls))"
      and "doomed i blob st"
  shows "doomed i blob (step env sunrise j st)"
proof (cases "j < length (goroutines st)")
  case False
  then show ?thesis using assms(2) by (simp add: step_def)
next
  case True
  show ?thesis
  proof (cases "j = i")
    case True
    then show ?thesis using assms(2) fails [of "calls_made st"]
      by (auto simp add: doomed_def step_def isl_def split: goroutine.splits sum.splits prod.splits)
  next
    case False
    then show ?thesis using assms(2) \<open>j < length (goroutines st)\<close>
      by (auto simp add: doomed_def step_def split: goroutine.splits sum.splits prod.splits)
  qed
qed

lemma doomed_fold:
  assumes fails: "\<And>calls. isl (fst (publish env sunrise blob calls))"
  shows "doomed i blob st \<Longrightarrow> doomed i blob (fold (step env sunrise) sched st)"
proof (induction sched arbitrary: st)
  case Nil
  then show ?case by simp
next
  case (Cons j sched)
  then show ?case using doomed_step [OF fails] by simp
qed

lemma error_held_step: "error_held i st \<Longrightarrow> error_held i (step env sunrise j st)"
proof (cases "j < length (goroutines st)")
  case False
  then show "error_held i st \<Longrightarrow> ?thesis" by (simp add: step_def)
next
  case True
  then show "error_held i st \<Longrightarrow> ?thesis"
    by (cases "j = i")
       (auto simp add: error_held_def step_def isl_def split: goroutine.splits sum.splits prod.splits)
qed

lemma error_held_fold:
  "error_held i st \<Longrightarrow> error_held i (fold (step env sunrise) sched st)"
  by (induction sched arbitrary: st) (simp_all add: error_held_step)

text \<open>
  In a single run: once a goroutine holds an error for \<open>errorChan\<close>, or has sent one,
  Submit returns an error and the nil list, however the run goes on. Here the service may
  fail one call and answer the next.
\<close>

lemma Submit_fails_once_an_error_is_held:
  assumes "error_held i (fold (step env sunrise) pre
             \<lparr>goroutines = map Started daBlobs, resultChan = [], errorChan = [], calls_made = calls\<rparr>)"
  shows "\<exists>err. fst (Submit env sunrise c daBlobs gasPrice namespace (pre @ post) calls) = Return [] (Some err)"
proof -
  let ?init = "\<lparr>goroutines = map Started daBlobs, resultChan = [], errorChan = [], calls_made = calls\<rparr>"
  let ?mid = "fold (step env sunrise) pre ?init"
  let ?n = "length daBlobs"
  let ?st = "run env sunrise (pre @ post) ?init"
  have st: "?st = fold (step env sunrise) (post @ [0 ..< ?n] @ [0 ..< ?n]) ?mid"
    by (simp add: run_def Let_def)
  have held: "error_held i ?st" unfolding st using assms by (rule error_held_fold)
  then have "i < length daBlobs" by (simp add: error_held_def)
  then have "goroutines ?st ! i = Finished" by (intro run_finishes) simp
  with held have "errorChan ?st \<noteq> []" unfolding error_held_def by simp
  then obtain err errs where "errorChan ?st = err # errs" by (cases "errorChan ?st") auto
  then show ?thesis by (auto simp add: Submit_def Let_def)
qed

text \<open>
  Claim C2. When the publish of some blob of the batch fails, whatever calls were made
  before it, Submit returns an error and the nil identifier list, under every schedule of
  the goroutines: the locators of the blobs that were published are not returned.
\<close>

theorem Submit_fails_when_a_publish_fails:
  assumes i: "i < length daBlobs"
      and fails: "\<And>calls. isl (fst (publish env sunrise (daBlobs ! i) calls))"
  shows "\<exists>err. fst (Submit env sunrise c daBlobs gasPrice namespace sched calls) = Return [] (Some err)"
proof -
  let ?init = "\<lparr>goroutines = map Started daBlobs, resultChan = [], errorChan = [], calls_made = calls\<rparr>"
  let ?st = "run env sunrise sched ?init"
  have "doomed i (daBlobs ! i) ?init" using i by (simp add: doomed_def)
  then have "doomed i (daBlobs ! i) ?st"
    unfolding run_def Let_def by (rule doomed_fold [OF fails])
  moreover have "goroutines ?st ! i = Finished" using i by (intro run_finishes) simp
  ultimately have "errorChan ?st \<noteq> []" unfolding doomed_def by simp
  then obtain err errs where "errorChan ?st = err # errs" by (cases "errorChan ?st") auto
  then show ?thesis by (auto simp add: Submit_def Let_def)
qed

theorem Submit_fails_when_a_publish_fails_witness:
  "1 < length [[65], [67 :: byte]]
   \<and> (\<forall>calls. isl (fst (publish mock_env mock_da ([[65], [67]] ! 1) calls)))
   \<and> (\<exists>err. fst (Submit mock_env mock_da \<lparr>ctx_Err = None\<rparr> [[65], [67]] 0 [] [1, 0, 0] []) =
               Return [] (Some err))"
proof -
  have encoded: "EncodeToString [67] = ''Qw==''" by code_simp
  have fails: "isl (fst (publish mock_env mock_da ([[65], [67]] ! 1) calls))" for calls
    by (simp add: publish_def publishRequest_def mock_env_def mock_da_def mock_store_def
          encoded NewSunriseDA_def del: EncodeToString.simps)
  have i: "1 < length [[65], [67 :: byte]]" by simp
  show ?thesis
    using Submit_fails_when_a_publish_fails [OF i fails, of "\<lparr>ctx_Err = None\<rparr>" 0 "[]" "[1, 0, 0]" "[]"]
      fails i by blast
qed

section \<open>A batch without failures\<close>

lemma filter_Finished_update:
  assumes "i < length gs" "gs ! i \<noteq> Finished"
  shows "length (filter (\<lambda>g. g = Finished) (gs[i := Finished])) = Suc (length (filter (\<lambda>g. g = Finished) gs))"
proof -
  have gs: "gs = take i gs @ gs ! i # drop (Suc i) gs" using assms(1) by (rule id_take_nth_drop)
  have "gs[i := Finished] = take i gs @ Finished # drop (Suc i) gs" using assms(1) by (rule upd_conv_take_nth_drop)
  then have "length (filter (\<lambda>g. g = Finished) (gs[i := Finished])) =
      length (filter (\<lambda>g. g = Finished) (take i gs)) + 1 + length (filter (\<lambda>g. g = Finished) (drop (Suc i) gs))"
    by simp
  moreover have "length (filter (\<lambda>g. g = Finished) gs) =
      length (filter (\<lambda>g. g = Finished) (take i gs)) + length (filter (\<lambda>g. g = Finished) (drop (Suc i) gs))"
    using assms(2) by (subst gs) simp
  ultimately show ?thesis by simp
qed

lemma filter_Finished_update_other:
  assumes "i < length gs" "gs ! i \<noteq> Finished" "g \<noteq> Finished"
  shows "filter (\<lambda>g. g = Finished) (gs[i := g]) = filter (\<lambda>g. g = Finished) gs"
proof -
  have gs: "gs = take i gs @ gs ! i # drop (Suc i) gs" using assms(1) by (rule id_take_nth_drop)
  have "gs[i := g] = take i gs @ g # drop (Suc i) gs" using assms(1) by (rule upd_conv_take_nth_drop)
  then have "filter (\<lambda>g. g = Finished) (gs[i := g]) =
      filter (\<lambda>g. g = Finished) (take i gs) @ filter (\<lambda>g. g = Finished) (drop (Suc i) gs)"
    using assms(3) by simp
  moreover have "filter (\<lambda>g. g = Finished) gs =
      filter (\<lambda>g. g = Finished) (take i gs) @ filter (\<lambda>g. g = Finished) (drop (Suc i) gs)"
    using assms(2) by (subst gs) simp
  ultimately show ?thesis by simp
qed

lemma on_track_step:
  assumes ok: "\<And>i calls. i < length daBlobs \<Longrightarrow>
                 \<exists>response. fst (publish env sunrise (daBlobs ! i) calls) = Inr response \<and> P response"
      and inv: "on_track P daBlobs st"
  shows "on_track P daBlobs (step env sunrise j st)"
proof (cases "j < length (goroutines st)")
  case False
  then show ?thesis using inv by (simp add: step_def)
next
  case j: True
  have len: "length (goroutines st) = length daBlobs"
    using inv by (auto simp add: on_track_def dest: list_all2_lengthD)
  have at_j: "(case goroutines st ! j of
                    Started b \<Rightarrow> b = daBlobs ! j
                  | Sending r \<Rightarrow> (case r of Inl err \<Rightarrow> False | Inr response \<Rightarrow> P response)
                  | Finished \<Rightarrow> True)"
    using inv j len by (auto simp add: on_track_def list_all2_conv_all_nth)
  show ?thesis
  proof (cases "goroutines st ! j")
    case (Started b)
    then have b: "b = daBlobs ! j" using at_j by simp
    obtain r calls' where p: "publish env sunrise b (calls_made st) = (r, calls')"
      by (cases "publish env sunrise b (calls_made st)")
    obtain response where r: "r = Inr response" "P response"
      using ok [of j "calls_made st"] j len p b by auto
    have "step env sunrise j st = st\<lparr>goroutines := (goroutines st)[j := Sending r], calls_made := calls'\<rparr>"
      using j Started p by (simp add: step_def)
    moreover have "filter (\<lambda>g. g = Finished) ((goroutines st)[j := Sending r]) = filter (\<lambda>g. g = Finished) (goroutines st)"
      using j Started by (intro filter_Finished_update_other) simp_all
    ultimately show ?thesis using inv r j
      by (auto simp add: on_track_def list_all2_conv_all_nth nth_list_update)
  next
    case (Sending r)
    then obtain response where r: "r = Inr response" "P response" using at_j by (cases r) simp_all
    have "step env sunrise j st = st\<lparr>goroutines := (goroutines st)[j := Finished], resultChan := resultChan st @ [response]\<rparr>"
      using j Sending r by (simp add: step_def)
    moreover have "length (filter (\<lambda>g. g = Finished) ((goroutines st)[j := Finished])) = Suc (length (filter (\<lambda>g. g = Finished) (goroutines st)))"
      using j Sending by (intro filter_Finished_update) simp_all
    ultimately show ?thesis using inv r j
      by (auto simp add: on_track_def list_all2_conv_all_nth nth_list_update)
  next
    case Finished
    then show ?thesis using j inv by (simp add: step_def)
  qed
qed

lemma on_track_fold:
  assumes ok: "\<And>i calls. i < length daBlobs \<Longrightarrow>
                 \<exists>response. fst (publish env sunrise (daBlobs ! i) calls) = Inr response \<and> P response"
  shows "on_track P daBlobs st \<Longrightarrow> on_track P daBlobs (fold (step env sunrise) sched st)"
proof (induction sched arbitrary: st)
  case Nil
  then show ?case by simp
next
  case (Cons j sched)
  then show ?case using on_track_step [OF ok] by simp
qed

lemma all_Finished_filter:
  assumes "\<And>i. i < length gs \<Longrightarrow> gs ! i = Finished"
  shows "filter (\<lambda>g. g = Finished) gs = gs"
  using assms by (auto simp add: filter_id_conv in_set_conv_nth)

text \<open>
  When every publish of the batch succeeds, whatever calls were made before it, Submit
  ends with one identifier for each blob in its local list, each the byte form of the
  locator of a response with property \<open>P\<close>, under every schedule; and it ends at the closing
  brace, not at a return statement.
\<close>

lemma Submit_collects_one_id_per_blob:
  assumes ok: "\<And>i calls. i < length daBlobs \<Longrightarrow>
                 \<exists>response. fst (publish env sunrise (daBlobs ! i) calls) = Inr response \<and> P response"
  shows "\<exists>results. fst (Submit env sunrise c daBlobs gasPrice namespace sched calls) =
                       MissingReturn (map (\<lambda>result. bytes_of_string (MetadataUri result)) results)
                   \<and> length results = length daBlobs \<and> list_all P results"
proof -
  let ?init = "\<lparr>goroutines = map Started daBlobs, resultChan = [], errorChan = [], calls_made = calls\<rparr>"
  let ?st = "run env sunrise sched ?init"
  have "on_track P daBlobs ?init" by (simp add: on_track_def list_all2_conv_all_nth)
  then have inv: "on_track P daBlobs ?st"
    unfolding run_def Let_def using ok by (intro on_track_fold) auto
  have "filter (\<lambda>g. g = Finished) (goroutines ?st) = goroutines ?st"
    by (rule all_Finished_filter) (simp add: run_finishes)
  then have "length (resultChan ?st) = length daBlobs" using inv by (simp add: on_track_def)
  moreover have "errorChan ?st = []" "list_all P (resultChan ?st)" using inv by (simp_all add: on_track_def)
  ultimately show ?thesis by (auto simp add: Submit_def Let_def)
qed

text \<open>The only return statement of Submit returns the nil list and an error.\<close>

lemma Submit_returns_only_errors:
  "fst (Submit env sunrise c daBlobs gasPrice namespace sched calls) = Return ids err \<Longrightarrow>
   ids = [] \<and> err \<noteq> None"
  by (auto simp add: Submit_def Let_def split: list.splits)

text \<open>
  Claim C1. For a batch in which every publish succeeds, Submit is to return one identifier
  for each blob. The mock service publishes both blobs of the batch \<open>A\<close>, \<open>BB\<close>; under
  the schedule in which the second goroutine runs before the first, Submit gathers the two
  identifiers \<open>loc2\<close>, \<open>loc1\<close> and then reaches the end of its body, where nothing is
  returned.
\<close>

theorem Submit_success_reaches_end_without_return:
  "Submit mock_env mock_da \<lparr>ctx_Err = None\<rparr> [[65], [66, 66]] 0 [] [1, 0, 1, 0] [] =
     (MissingReturn [bytes_of_string ''loc2'', bytes_of_string ''loc1''],
      [Post ''http://da/api/publish'' ''application/json'' ''QkI='',
       Post ''http://da/api/publish'' ''application/json'' ''QQ==''])"
  by code_simp

section \<open>Publishing a blob and fetching it again\<close>

text \<open>
  For a batch of one blob whose publish succeeds, the identifier list Submit holds at its
  end is the byte form of the locator the goroutine received, under every schedule.
\<close>

lemma Submit_single_blob:
  assumes published: "publish env sunrise B calls = (Inr result, calls1)"
  shows "Submit env sunrise c [B] gasPrice namespace sched calls =
           (MissingReturn [bytes_of_string (MetadataUri result)], calls1)"
proof -
  define s0 where "s0 = \<lparr>goroutines = [Started B], resultChan = [], errorChan = [], calls_made = calls\<rparr>"
  define s1 where "s1 = \<lparr>goroutines = [Sending (Inr result)], resultChan = [], errorChan = [], calls_made = calls1\<rparr>"
  define s2 where "s2 = \<lparr>goroutines = [Finished], resultChan = [result], errorChan = [], calls_made = calls1\<rparr>"
  have step0: "step env sunrise j s0 = (if j = 0 then s1 else s0)" for j
    using published by (simp add: step_def s0_def s1_def)
  have step1: "step env sunrise j s1 = (if j = 0 then s2 else s1)" for j
    by (simp add: step_def s1_def s2_def)
  have step2: "step env sunrise j s2 = s2" for j
    by (simp add: step_def s2_def)
  have closed: "st \<in> {s0, s1, s2} \<Longrightarrow> fold (step env sunrise) js st \<in> {s0, s1, s2}" for st js
  proof (induction js arbitrary: st)
    case Nil
    then show ?case by simp
  next
    case (Cons j js)
    have "step env sunrise j st \<in> {s0, s1, s2}"
      using Cons.prems step0 [of j] step1 [of j] step2 [of j] by auto
    then show ?case using Cons.IH by simp
  qed
  have finish: "st \<in> {s0, s1, s2} \<Longrightarrow> fold (step env sunrise) [0, 0] st = s2" for st
    using step0 [of 0] step1 [of 0] step2 [of 0] by auto
  have "run env sunrise sched s0 = fold (step env sunrise) [0, 0] (fold (step env sunrise) sched s0)"
    by (simp add: run_def s0_def)
  also have "\<dots> = s2" using closed [of s0 sched] by (intro finish) simp
  finally have "run env sunrise sched s0 = s2" .
  then show ?thesis by (simp add: Submit_def s0_def s2_def)
qed

text \<open>
  What Get returns for the byte form of a locator when the fetch endpoint answers with the
  payload of the publish request for \<open>B\<close>: it asks for the locator with the bytes of the
  identifier unchanged, and decoding inverts the encoding of the payload.
\<close>

lemma Get_of_locator:
  assumes request: "http_NewRequest env ''GET''
                      (ServerURL (config sunrise) @ ''/api/get-blob?metadata_uri='' @ locator) = Inr req"
      and answered: "client_Do env calls1 req = Inr response"
      and read: "io_ReadAll env response = Inr responseData"
      and parsed: "json_Unmarshal_GetBlobResponse env responseData = Inr blobResponse"
      and consistent: "resp_Blob blobResponse = Blob (publishRequest sunrise B)"
  shows "Get env sunrise c [bytes_of_string locator] namespace calls1 =
           (([B], None), calls1 @ [Do req])"
proof -
  have "fetchResponse env sunrise (bytes_of_string locator) calls1 =
          (Inr blobResponse, calls1 @ [Do req])"
    using request answered read parsed
    by (simp add: fetchResponse_def string_of_bytes_of_string)
  moreover have "DecodeString (resp_Blob blobResponse) = Inr B"
    using consistent by (simp add: publishRequest_def DecodeString_EncodeToString)
  ultimately have "fetchBlob env sunrise (bytes_of_string locator) calls1 =
          (Inr B, calls1 @ [Do req])"
    by (simp add: fetchBlob_Inr)
  then show ?thesis by (simp add: Get_def)
qed

text \<open>
  Claim C4. Let Submit be called with the one blob \<open>B\<close>, let the publish of \<open>B\<close> succeed
  with the response \<open>result\<close>, and let the store be consistent: asked for the locator of
  \<open>result\<close> after the publish, the fetch endpoint answers with the payload of the publish
  request. Under every schedule Submit then holds exactly one identifier, the byte form of
  that locator, and Get of this identifier returns exactly \<open>B\<close>. But Submit ends at its
  closing brace with the identifier in its local list: no return statement hands it to the
  caller, so the caller has no identifier to give to Get.
\<close>

theorem Submit_then_Get_round_trip:
  assumes published: "publish env sunrise B calls = (Inr result, calls1)"
      and request: "http_NewRequest env ''GET''
                      (ServerURL (config sunrise) @ ''/api/get-blob?metadata_uri='' @ MetadataUri result) = Inr req"
      and answered: "client_Do env calls1 req = Inr response"
      and read: "io_ReadAll env response = Inr responseData"
      and parsed: "json_Unmarshal_GetBlobResponse env responseData = Inr blobResponse"
      and consistent: "resp_Blob blobResponse = Blob (publishRequest sunrise B)"
  shows "\<exists>id'. Submit env sunrise c [B] gasPrice namespace sched calls = (MissingReturn [id'], calls1)
               \<and> id' = bytes_of_string (MetadataUri result)
               \<and> Get env sunrise c' [id'] namespace' calls1 = (([B], None), calls1 @ [Do req])"
  using Submit_single_blob [OF published]
    Get_of_locator [OF request answered read parsed consistent]
  by simp

theorem Submit_then_Get_round_trip_witness:
  "\<exists>id'. Submit mock_env mock_da \<lparr>ctx_Err = None\<rparr> [[65]] 0 [] [0] [] =
           (MissingReturn [id'], [Post ''http://da/api/publish'' ''application/json'' ''QQ==''])
         \<and> id' = bytes_of_string (MetadataUri \<lparr>TxHash = [], MetadataUri = ''loc1''\<rparr>)
         \<and> Get mock_env mock_da \<lparr>ctx_Err = None\<rparr> [id'] []
               [Post ''http://da/api/publish'' ''application/json'' ''QQ==''] =
             (([[65]], None),
              [Post ''http://da/api/publish'' ''application/json'' ''QQ==''] @
              [Do \<lparr>req_method = ''GET'', req_url = ''http://da/api/get-blob?metadata_uri=loc1''\<rparr>])"
proof -
  have published:
    "publish mock_env mock_da [65] [] =
       (Inr \<lparr>TxHash = [], MetadataUri = ''loc1''\<rparr>,
        [Post ''http://da/api/publish'' ''application/json'' ''QQ==''])"
    by code_simp
  have request:
    "http_NewRequest mock_env ''GET''
       (ServerURL (config mock_da) @ ''/api/get-blob?metadata_uri='' @
        MetadataUri \<lparr>TxHash = [], MetadataUri = ''loc1''\<rparr>) =
       Inr \<lparr>req_method = ''GET'', req_url = ''http://da/api/get-blob?metadata_uri=loc1''\<rparr>"
    by code_simp
  have answered:
    "client_Do mock_env [Post ''http://da/api/publish'' ''application/json'' ''QQ=='']
       \<lparr>req_method = ''GET'', req_url = ''http://da/api/get-blob?metadata_uri=loc1''\<rparr> = Inr ''QQ==''"
    by code_simp
  have read: "io_ReadAll mock_env ''QQ=='' = Inr ''QQ==''"
    by code_simp
  have parsed: "json_Unmarshal_GetBlobResponse mock_env ''QQ=='' = Inr \<lparr>resp_Blob = ''QQ==''\<rparr>"
    by code_simp
  have consistent: "resp_Blob \<lparr>resp_Blob = ''QQ==''\<rparr> = Blob (publishRequest mock_da [65])"
    by code_simp
  show ?thesis
    by (rule Submit_then_Get_round_trip [OF published request answered read parsed consistent])
qed

section \<open>The facade\<close>

text \<open>
  Claim C3. For every height, GetIDs returns no error and exactly one identifier of eight
  bytes. Its first four bytes are the big-endian form of the height modulo \<open>2 ^ 32\<close>, so a
  height of \<open>2 ^ 32\<close> or more is cut to its low 32 bits; its last four bytes are zero.
\<close>

theorem GetIDs_height_in_first_four_bytes:
  "\<exists>id'. GetIDs c cx height namespace = ([id'], None) \<and> length id' = 8
         \<and> Uint32 (take 4 id') = ucast height
         \<and> unat (Uint32 (take 4 id')) = unat height mod 2 ^ 32
         \<and> drop 4 id' = [0, 0, 0, 0]"
  by (simp add: GetIDs_def Let_def replicate_8 PutUint32_8 Uint32_PutUint32 unat_truncate)

text \<open>
  The last four bytes of the identifier are not the big-endian form of the height: for
  height 1 they read as 0.
\<close>

theorem GetIDs_last_four_bytes_counterexample:
  "GetIDs mock_da \<lparr>ctx_Err = None\<rparr> 1 [] = ([[0, 0, 0, 1, 0, 0, 0, 0]], None)
   \<and> Uint32 (drop 4 (hd (fst (GetIDs mock_da \<lparr>ctx_Err = None\<rparr> 1 [])))) \<noteq> ucast (1 :: 64 word)"
  by code_simp

text \<open>
  Claim C7. MaxBlobSize returns the constant \<open>64 * 64 * 500 = 2048000\<close> and no error,
  for every adapter and every context, cancelled or not.
\<close>

theorem MaxBlobSize_constant:
  "MaxBlobSize sunrise c = (2048000, None) \<and> unat (fst (MaxBlobSize sunrise c)) = 64 * 64 * 500"
  by (simp add: MaxBlobSize_def)

text \<open>
  Claim C8. GetProofs, Commit and Validate return the empty list and no error for every
  input, with empty or non-empty lists of identifiers, blobs and proofs.
\<close>

theorem stubs_return_empty:
  "GetProofs sunrise c ids namespace = ([], None)
   \<and> Commit sunrise c daBlobs namespace = ([], None)
   \<and> Validate sunrise c ids daProofs namespace = ([], None)"
  by (simp add: GetProofs_def Commit_def Validate_def)

text \<open>
  Claim C9. The result of GetIDs depends on the height only: two calls with the same height
  give the same identifier, whatever the adapter and its configuration, the context and the
  namespace of each call.
\<close>

theorem GetIDs_depends_on_height_only:
  "GetIDs c1 cx1 height namespace1 = GetIDs c2 cx2 height namespace2"
  by (simp add: GetIDs_def)

end
